theory Spec2Isabelle
  imports Main "HOL-Library.Multiset"
begin

section \<open>The find and replace UI plugin (findandreplaceui)\<close>

subsection \<open>Objects, positions and JavaScript arrays\<close>

text \<open>
  A search result is a JavaScript object; the code only compares results by identity
  (\<^verbatim>\<open>indexOf\<close> uses strict equality) and reads \<^verbatim>\<open>marker.getStart()\<close> from them.
  A result is therefore modelled by its object reference, and arrays of results live in
  a store of arrays, so that copying an array and sorting an array in place are
  different things.
\<close>

type_synonym ref = nat

type_synonym addr = nat

type_synonym arrays = "ref list list"

text \<open>The outcomes of comparing two positions that the sort mapping of the plugin has keys for.\<close>

datatype PositionRelation = before | same | after

text \<open>
  Modelled from the spec: \<^verbatim>\<open>Position.compareWith\<close>, which the engine package defines
  and the plugin only calls. The spec calls a position "a comparable location in
  document order, e.g. an offset or node-path pair" and the comparison "a three-way
  comparator with outcomes {before, same, after}". A position is any linearly ordered
  value.
\<close>

definition compareWith :: "'p::linorder \<Rightarrow> 'p \<Rightarrow> PositionRelation" where
  "compareWith p q = (if p < q then before else if p = q then same else after)"

text \<open>\<^verbatim>\<open>const sortMapping = { before: -1, same: 0, after: 1 };\<close>\<close>

definition sortMapping :: "PositionRelation \<Rightarrow> int" where
  "sortMapping r = (case r of before \<Rightarrow> - 1 | same \<Rightarrow> 0 | after \<Rightarrow> 1)"

text \<open>
  \<^verbatim>\<open>Array.prototype.indexOf\<close>: the index of the first element strictly equal to the
  searched one, or \<open>-1\<close>.
\<close>

fun indexOf :: "'a list \<Rightarrow> 'a \<Rightarrow> int" where
  "indexOf [] x = - 1"
| "indexOf (y # ys) x =
     (if y = x then 0 else (let i = indexOf ys x in if i < 0 then - 1 else i + 1))"

text \<open>
  \<^verbatim>\<open>Array.prototype.sort\<close> with a comparison function. ECMAScript leaves the
  sequence of comparisons to the engine and requires the result to be stable; the
  model is the stable insertion sort: elements are taken from the back of the array,
  and each is put in front of the first element it does not compare greater than.
\<close>

fun sort_insert :: "('a \<Rightarrow> 'a \<Rightarrow> int) \<Rightarrow> 'a \<Rightarrow> 'a list \<Rightarrow> 'a list" where
  "sort_insert comparefn x [] = [x]"
| "sort_insert comparefn x (y # ys) =
     (if comparefn x y \<le> 0 then x # y # ys else y # sort_insert comparefn x ys)"

fun sort_list :: "('a \<Rightarrow> 'a \<Rightarrow> int) \<Rightarrow> 'a list \<Rightarrow> 'a list" where
  "sort_list comparefn [] = []"
| "sort_list comparefn (x # xs) = sort_insert comparefn x (sort_list comparefn xs)"

text \<open>\<^verbatim>\<open>Array.from(iterable)\<close> allocates a new array holding the items of the iterable.\<close>

definition Array_from :: "ref list \<Rightarrow> arrays \<Rightarrow> addr \<times> arrays" where
  "Array_from items H = (length H, H @ [items])"

text \<open>\<^verbatim>\<open>array.sort(comparefn)\<close> sorts the array in place and returns the same array.\<close>

definition Array_sort :: "(ref \<Rightarrow> ref \<Rightarrow> int) \<Rightarrow> addr \<Rightarrow> arrays \<Rightarrow> addr \<times> arrays" where
  "Array_sort comparefn a H = (a, H[a := sort_list comparefn (H ! a)])"

definition Array_indexOf :: "ref \<Rightarrow> addr \<Rightarrow> arrays \<Rightarrow> int" where
  "Array_indexOf x a H = indexOf (H ! a) x"

subsection \<open>The state the form view bindings read and write\<close>

text \<open>
  \<open>store\<close> holds every array; \<open>results\<close> is the item array of the collection
  \<^verbatim>\<open>editingState.results\<close>, in insertion order; \<open>getStart r\<close> is
  \<^verbatim>\<open>r.marker.getStart()\<close>; \<open>matchCount\<close> is the property of the form view;
  \<open>fired\<close> lists the events the plugin has fired, oldest first.
\<close>

record 'p world =
  store :: arrays
  results :: addr
  getStart :: "ref \<Rightarrow> 'p"
  matchCount :: int
  fired :: "string list"

text \<open>
  The function bound to \<^verbatim>\<open>highlightOffset\<close> in \<^verbatim>\<open>_setupFormView\<close>. Its argument is
  the value of \<^verbatim>\<open>editingState.highlightedResult\<close>: a result object, or nothing
  (the only falsy case for an object reference).
\<close>

definition highlightOffset :: "ref option \<Rightarrow> 'p::linorder world \<Rightarrow> int \<times> 'p world" where
  "highlightOffset highlightedResult w =
     (case highlightedResult of
        None \<Rightarrow> (0, w)
      | Some h \<Rightarrow>
          (let (a, H1) = Array_from (store w ! results w) (store w);
               (a', H2) = Array_sort
                  (\<lambda>a b. sortMapping (compareWith (getStart w a) (getStart w b))) a H1
           in (Array_indexOf h a' H2 + 1, w\<lparr>store := H2\<rparr>)))"

text \<open>The listener of the \<^verbatim>\<open>change\<close> event of \<^verbatim>\<open>editingState.results\<close>.\<close>

definition results_change :: "'p world \<Rightarrow> 'p world" where
  "results_change w = w\<lparr>matchCount := int (length (store w ! results w))\<rparr>"

text \<open>\<^verbatim>\<open>this.fire( name )\<close>.\<close>

definition fire :: "string \<Rightarrow> 'p world \<Rightarrow> 'p world" where
  "fire name w = w\<lparr>fired := fired w @ [name]\<rparr>"

text \<open>
  The listener of the \<^verbatim>\<open>change:isDirty\<close> event of the form view; \<open>isDirty\<close> is the
  new value of the property.
\<close>

definition change_isDirty :: "bool \<Rightarrow> 'p world \<Rightarrow> 'p world" where
  "change_isDirty isDirty w = (if isDirty then fire ''searchReseted'' w else w)"

text \<open>The scenario of the spec: A at 10, B at 5, C at 20, inserted in this order.\<close>

definition scenario :: "int world" where
  "scenario = \<lparr>store = [[0, 1, 2]], results = 0, getStart = (\<lambda>r. [10, 5, 20] ! r),
     matchCount = 0, fired = []\<rparr>"

text \<open>A result set with a tie: results 0 and 2 are both at position 7, result 1 is at 3.\<close>

definition tied_scenario :: "int world" where
  "tied_scenario = \<lparr>store = [[0, 1, 2]], results = 0, getStart = (\<lambda>r. [7, 3, 7] ! r),
     matchCount = 0, fired = []\<rparr>"

section \<open>The image style editing plugin (imagestyleediting)\<close>

text \<open>
  The value given to \<^verbatim>\<open>image.styles\<close>: an object with the key
  \<^verbatim>\<open>arrangements\<close> and, in one case only, the key \<^verbatim>\<open>groups\<close>.
\<close>

record styles =
  arrangements :: "string list"
  groups :: "string list option"

text \<open>
  \<^verbatim>\<open>_defineDefaultConfiguration\<close>. \<open>loadedPlugins\<close> is the set of the names of the
  loaded plugins, \<^verbatim>\<open>loadedPlugins.has( name )\<close> is membership. \<^verbatim>\<open>config.define\<close>
  belongs to the editor configuration and is a parameter; the last line of the function
  calls it, with \<open>None\<close> for \<^verbatim>\<open>undefined\<close> when \<^verbatim>\<open>styles\<close> was never assigned.
\<close>

definition defineDefaultConfiguration ::
  "(string \<Rightarrow> styles option \<Rightarrow> 'c \<Rightarrow> 'c) \<Rightarrow> string set \<Rightarrow> 'c \<Rightarrow> 'c" where
  "defineDefaultConfiguration define loadedPlugins config =
     (let isBlockLoaded = (''ImageBlock'' \<in> loadedPlugins);
          isinlineLoaded = (''ImageInline'' \<in> loadedPlugins);
          styles =
            (if isBlockLoaded \<and> isinlineLoaded then
               Some \<lparr>arrangements =
                        [''alignInline'', ''alignLeft'', ''alignRight'',
                         ''alignCenter'', ''alignBlockLeft'', ''alignBlockRight''],
                     groups = Some [''inParagraph'', ''betweenParagraphs'']\<rparr>
             else if isBlockLoaded then
               Some \<lparr>arrangements = [''full'', ''side''], groups = None\<rparr>
             else if isinlineLoaded then
               Some \<lparr>arrangements = [''alignInline'', ''alignLeft'', ''alignRight''],
                     groups = None\<rparr>
             else None)
      in define ''image.styles'' styles config)"

section \<open>Lemmas on arrays\<close>

text \<open>\<^verbatim>\<open>indexOf\<close> in terms of the elements in front of the first occurrence.\<close>

lemma indexOf_notin: "x \<notin> set xs \<Longrightarrow> indexOf xs x = - 1"
  by (induction xs) auto

lemma indexOf_in: "x \<in> set xs \<Longrightarrow> indexOf xs x = int (length (takeWhile (\<lambda>y. y \<noteq> x) xs))"
  by (induction xs) (auto simp: Let_def)

lemma first_index_less: "h \<in> set xs \<Longrightarrow> length (takeWhile (\<lambda>y. y \<noteq> h) xs) < length xs"
  by (induction xs) auto

lemma first_index_nth: "h \<in> set xs \<Longrightarrow> xs ! length (takeWhile (\<lambda>y. y \<noteq> h) xs) = h"
  using nth_length_takeWhile[of "\<lambda>y. y \<noteq> h" xs] first_index_less[of h xs] by simp

lemma first_index_before: "j < length (takeWhile (\<lambda>y. y \<noteq> h) xs) \<Longrightarrow> xs ! j \<noteq> h"
  using nth_mem[of j "takeWhile (\<lambda>y. y \<noteq> h) xs"] set_takeWhileD[of "xs ! j" "\<lambda>y. y \<noteq> h" xs]
  by (simp add: takeWhile_nth)

lemma first_index_eq: "a \<in> set xs \<Longrightarrow>
   length (takeWhile (\<lambda>y. y \<noteq> a) xs) = length (takeWhile (\<lambda>y. y \<noteq> b) xs) \<Longrightarrow> a = b"
  by (induction xs) (auto split: if_splits)

text \<open>
  The comparison function of the plugin puts \<open>a\<close> in front of \<open>b\<close> exactly when the
  position of \<open>a\<close> is not after that of \<open>b\<close>, so sorting with it is the stable sort
  by position.
\<close>

lemma comparefn_le: "sortMapping (compareWith p q) \<le> 0 \<longleftrightarrow> p \<le> q"
  by (auto simp: sortMapping_def compareWith_def)

lemma sort_insert_insort_key:
  "sort_insert (\<lambda>a b. sortMapping (compareWith (f a) (f b))) x ys = insort_key f x ys"
  by (induction ys) (simp_all add: comparefn_le)

lemma sort_list_sort_key:
  "sort_list (\<lambda>a b. sortMapping (compareWith (f a) (f b))) xs = sort_key f xs"
  by (induction xs) (simp_all add: sort_insert_insort_key)

lemma sorted_wrt_comparefn:
  "sorted_wrt (\<lambda>a b. sortMapping (compareWith (f a) (f b)) \<le> 0) xs = sorted (map f xs)"
  by (simp add: comparefn_le sorted_map)

text \<open>
  Any stable, sorted rearrangement of an array is the array the model of
  \<^verbatim>\<open>sort\<close> computes: for this comparison function the choice of the sorting algorithm
  does not show in the result.
\<close>

lemma sort_list_unique:
  assumes "mset ys = mset xs"
    and "sorted (map f ys)"
    and "\<And>p. filter (\<lambda>r. f r = p) ys = filter (\<lambda>r. f r = p) xs"
  shows "sort_list (\<lambda>a b. sortMapping (compareWith (f a) (f b))) xs = ys"
proof -
  have "filter (\<lambda>r. f k = f r) ys = filter (\<lambda>r. f k = f r) xs" for k
    using assms(3)[of "f k"] by (simp add: eq_commute)
  with assms(1,2) have "sort_key f xs = ys"
    by (intro properties_for_sort_key) simp_all
  then show ?thesis by (simp add: sort_list_sort_key)
qed

text \<open>Sorting an array changes the array itself, and no other one.\<close>

lemma Array_sort_in_place:
  "a < length H \<Longrightarrow> snd (Array_sort comparefn a H) ! a = sort_list comparefn (H ! a)"
  by (simp add: Array_sort_def)

lemma Array_sort_elsewhere:
  "b \<noteq> a \<Longrightarrow> snd (Array_sort comparefn a H) ! b = H ! b"
  by (simp add: Array_sort_def)

text \<open>
  Where a result first occurs in an array sorted by position: after the results at
  earlier positions and after the results at its own position that precede it.
\<close>

lemma first_index_sorted:
  "sorted (map f xs) \<Longrightarrow> h \<in> set xs \<Longrightarrow>
   length (takeWhile (\<lambda>y. y \<noteq> h) xs) =
     length (filter (\<lambda>y. f y < f h) xs) + length (takeWhile (\<lambda>y. y \<noteq> h) (filter (\<lambda>y. f y = f h) xs))"
proof (induction xs)
  case Nil
  then show ?case by simp
next
  case (Cons y ys)
  from Cons.prems(1) have later: "\<forall>z \<in> set ys. f y \<le> f z" and s: "sorted (map f ys)"
    by auto
  show ?case
  proof (cases "y = h")
    case True
    with later have "filter (\<lambda>z. f z < f h) ys = []"
      by (auto simp: filter_empty_conv)
    with True show ?thesis by simp
  next
    case False
    with Cons.prems(2) have hin: "h \<in> set ys" by simp
    with later have le: "f y \<le> f h" by blast
    note IH = Cons.IH[OF s hin]
    show ?thesis
    proof (cases "f y = f h")
      case True
      with later have "filter (\<lambda>z. f z < f h) ys = []"
        by (auto simp: filter_empty_conv)
      with True False IH show ?thesis by simp
    next
      case ne: False
      with le have lt: "f y < f h" by simp
      have "length (takeWhile (\<lambda>y. y \<noteq> h) (y # ys)) = Suc (length (takeWhile (\<lambda>y. y \<noteq> h) ys))"
        using False by simp
      moreover have "filter (\<lambda>z. f z < f h) (y # ys) = y # filter (\<lambda>z. f z < f h) ys"
        using lt by simp
      moreover have "filter (\<lambda>z. f z = f h) (y # ys) = filter (\<lambda>z. f z = f h) ys"
        using ne by simp
      ultimately show ?thesis using IH by (simp only: length_Cons add_Suc)
    qed
  qed
qed

lemma first_index_filter_mono:
  "P a \<Longrightarrow> P b \<Longrightarrow> b \<in> set xs \<Longrightarrow>
   length (takeWhile (\<lambda>y. y \<noteq> a) xs) < length (takeWhile (\<lambda>y. y \<noteq> b) xs) \<Longrightarrow>
   length (takeWhile (\<lambda>y. y \<noteq> a) (filter P xs)) < length (takeWhile (\<lambda>y. y \<noteq> b) (filter P xs))"
  by (induction xs) (auto split: if_splits)

lemma first_index_filter_iff:
  assumes "P a" and "P b" and "a \<in> set xs" and "b \<in> set xs"
  shows "(length (takeWhile (\<lambda>y. y \<noteq> a) (filter P xs)) < length (takeWhile (\<lambda>y. y \<noteq> b) (filter P xs)))
       = (length (takeWhile (\<lambda>y. y \<noteq> a) xs) < length (takeWhile (\<lambda>y. y \<noteq> b) xs))"
proof
  assume "length (takeWhile (\<lambda>y. y \<noteq> a) xs) < length (takeWhile (\<lambda>y. y \<noteq> b) xs)"
  with assms show "length (takeWhile (\<lambda>y. y \<noteq> a) (filter P xs)) < length (takeWhile (\<lambda>y. y \<noteq> b) (filter P xs))"
    by (simp add: first_index_filter_mono)
next
  assume l: "length (takeWhile (\<lambda>y. y \<noteq> a) (filter P xs)) < length (takeWhile (\<lambda>y. y \<noteq> b) (filter P xs))"
  show "length (takeWhile (\<lambda>y. y \<noteq> a) xs) < length (takeWhile (\<lambda>y. y \<noteq> b) xs)"
  proof (rule ccontr)
    assume "\<not> length (takeWhile (\<lambda>y. y \<noteq> a) xs) < length (takeWhile (\<lambda>y. y \<noteq> b) xs)"
    then consider "length (takeWhile (\<lambda>y. y \<noteq> b) xs) < length (takeWhile (\<lambda>y. y \<noteq> a) xs)"
      | "length (takeWhile (\<lambda>y. y \<noteq> a) xs) = length (takeWhile (\<lambda>y. y \<noteq> b) xs)"
      by linarith
    then show False
    proof cases
      case 1
      with assms have "length (takeWhile (\<lambda>y. y \<noteq> b) (filter P xs)) < length (takeWhile (\<lambda>y. y \<noteq> a) (filter P xs))"
        by (simp add: first_index_filter_mono)
      with l show False by simp
    next
      case 2
      with assms(3) have "a = b" by (rule first_index_eq)
      with l show False by simp
    qed
  qed
qed

text \<open>What the bound function returns for a highlighted result, and the state it leaves.\<close>

lemma highlightOffset_Some:
  "highlightOffset (Some h) w =
     (indexOf (sort_key (getStart w) (store w ! results w)) h + 1,
      w\<lparr>store := store w @ [sort_key (getStart w) (store w ! results w)]\<rparr>)"
  by (simp add: highlightOffset_def Array_from_def Array_sort_def Array_indexOf_def
      sort_list_sort_key)

section \<open>Properties of the highlight offset\<close>

text \<open>
  C1: for a highlighted result \<open>h\<close> of the result set, the function builds a new array
  \<open>S\<close> holding all the results in ascending order of their positions, the outcomes
  before, same, after of the comparison being mapped to -1, 0, 1, and returns the index
  of the first occurrence of \<open>h\<close> in \<open>S\<close> plus one; the value lies between 1 and the size
  of the result set.
\<close>

theorem highlightOffset_member:
  fixes w :: "'p::linorder world"
  assumes "h \<in> set (store w ! results w)"
  shows "\<exists>S i. store (snd (highlightOffset (Some h) w)) = store w @ [S]
      \<and> mset S = mset (store w ! results w)
      \<and> sorted (map (getStart w) S)
      \<and> sortMapping before = - 1 \<and> sortMapping same = 0 \<and> sortMapping after = 1
      \<and> i < length S \<and> S ! i = h \<and> (\<forall>j<i. S ! j \<noteq> h)
      \<and> fst (highlightOffset (Some h) w) = int i + 1
      \<and> 1 \<le> fst (highlightOffset (Some h) w)
      \<and> fst (highlightOffset (Some h) w) \<le> int (length (store w ! results w))"
proof -
  define R where "R = store w ! results w"
  define S where "S = sort_key (getStart w) R"
  define i where "i = length (takeWhile (\<lambda>y. y \<noteq> h) S)"
  from assms have hS: "h \<in> set S" by (simp add: S_def R_def)
  have st: "store (snd (highlightOffset (Some h) w)) = store w @ [S]"
    by (simp add: highlightOffset_Some S_def R_def)
  have ms: "mset S = mset (store w ! results w)"
    by (simp add: S_def R_def)
  have so: "sorted (map (getStart w) S)"
    by (simp add: S_def)
  have sm: "sortMapping before = - 1 \<and> sortMapping same = 0 \<and> sortMapping after = 1"
    by (simp add: sortMapping_def)
  have il: "i < length S" using hS by (simp add: i_def first_index_less)
  have ih: "S ! i = h" using hS by (simp add: i_def first_index_nth)
  have ib: "\<forall>j<i. S ! j \<noteq> h" by (simp add: i_def first_index_before)
  have off: "fst (highlightOffset (Some h) w) = int i + 1"
    using hS by (simp add: highlightOffset_Some indexOf_in i_def S_def R_def)
  have len: "length S = length (store w ! results w)" by (simp add: S_def R_def)
  have lo: "1 \<le> fst (highlightOffset (Some h) w)" using off by simp
  have hi: "fst (highlightOffset (Some h) w) \<le> int (length (store w ! results w))"
    using off il len by simp
  from st ms so sm il ih ib off lo hi show ?thesis by blast
qed

theorem highlightOffset_member_witness:
  "1 \<in> set (store scenario ! results scenario) \<and>
   (\<exists>S i. store (snd (highlightOffset (Some 1) scenario)) = store scenario @ [S]
      \<and> mset S = mset (store scenario ! results scenario)
      \<and> sorted (map (getStart scenario) S)
      \<and> sortMapping before = - 1 \<and> sortMapping same = 0 \<and> sortMapping after = 1
      \<and> i < length S \<and> S ! i = 1 \<and> (\<forall>j<i. S ! j \<noteq> 1)
      \<and> fst (highlightOffset (Some 1) scenario) = int i + 1
      \<and> 1 \<le> fst (highlightOffset (Some 1) scenario)
      \<and> fst (highlightOffset (Some 1) scenario) \<le> int (length (store scenario ! results scenario)))"
proof -
  have m: "1 \<in> set (store scenario ! results scenario)"
    by (simp add: scenario_def)
  from m highlightOffset_member[OF m] show ?thesis by (rule conjI)
qed

text \<open>
  C2: when no result is highlighted the highlight offset is 0, whatever the result set
  holds, and in particular when it is empty.
\<close>

theorem highlightOffset_none:
  "fst (highlightOffset None w) = 0"
  by (simp add: highlightOffset_def)

text \<open>
  C3: the sort is stable. For two results of the result set whose positions compare as
  same, the sorted copy keeps the results at that position in insertion order, the one
  is in front of the other in the sorted copy exactly when it is in the result set, and
  so its highlight offset is the smaller one exactly when it was inserted first.
\<close>

theorem highlightOffset_stable:
  fixes w :: "'p::linorder world"
  assumes "h1 \<in> set (store w ! results w)" and "h2 \<in> set (store w ! results w)"
    and "compareWith (getStart w h1) (getStart w h2) = same"
  shows "\<exists>S. store (snd (highlightOffset (Some h1) w)) = store w @ [S]
      \<and> filter (\<lambda>r. compareWith (getStart w r) (getStart w h1) = same) S
        = filter (\<lambda>r. compareWith (getStart w r) (getStart w h1) = same) (store w ! results w)
      \<and> (indexOf S h1 < indexOf S h2)
        = (indexOf (store w ! results w) h1 < indexOf (store w ! results w) h2)
      \<and> (fst (highlightOffset (Some h1) w) < fst (highlightOffset (Some h2) w))
        = (indexOf (store w ! results w) h1 < indexOf (store w ! results w) h2)"
proof -
  define f where "f = getStart w"
  define R where "R = store w ! results w"
  define S where "S = sort_key f R"
  define k where "k = f h1"
  from assms(3) have k2: "f h2 = k"
    by (simp add: compareWith_def k_def f_def split: if_splits)
  have k1: "f h1 = k" by (simp add: k_def)
  from assms have inR: "h1 \<in> set R" "h2 \<in> set R" by (simp_all add: R_def)
  then have inS: "h1 \<in> set S" "h2 \<in> set S" by (simp_all add: S_def)
  have same_eq: "(\<lambda>r. compareWith (getStart w r) (getStart w h1) = same) = (\<lambda>r. f r = k)"
    by (auto simp: compareWith_def k_def f_def fun_eq_iff)
  have stab: "filter (\<lambda>r. f r = k) S = filter (\<lambda>r. f r = k) R"
    by (simp add: S_def sort_key_stable)
  have so: "sorted (map f S)" by (simp add: S_def)
  have i1: "length (takeWhile (\<lambda>y. y \<noteq> h1) S) =
      length (filter (\<lambda>y. f y < k) S) + length (takeWhile (\<lambda>y. y \<noteq> h1) (filter (\<lambda>y. f y = k) R))"
    using first_index_sorted[OF so inS(1)] by (simp add: k1 stab)
  have i2: "length (takeWhile (\<lambda>y. y \<noteq> h2) S) =
      length (filter (\<lambda>y. f y < k) S) + length (takeWhile (\<lambda>y. y \<noteq> h2) (filter (\<lambda>y. f y = k) R))"
    using first_index_sorted[OF so inS(2)] by (simp add: k2 stab)
  have iff: "(length (takeWhile (\<lambda>y. y \<noteq> h1) S) < length (takeWhile (\<lambda>y. y \<noteq> h2) S))
      = (length (takeWhile (\<lambda>y. y \<noteq> h1) R) < length (takeWhile (\<lambda>y. y \<noteq> h2) R))"
    using first_index_filter_iff[of "\<lambda>y. f y = k" h1 h2 R] k1 k2 inR
    by (simp add: i1 i2)
  have a: "store (snd (highlightOffset (Some h1) w)) = store w @ [S]"
    by (simp add: highlightOffset_Some S_def R_def f_def)
  have b: "filter (\<lambda>r. compareWith (getStart w r) (getStart w h1) = same) S
        = filter (\<lambda>r. compareWith (getStart w r) (getStart w h1) = same) (store w ! results w)"
    using stab by (simp add: same_eq R_def)
  have c: "(indexOf S h1 < indexOf S h2)
        = (indexOf (store w ! results w) h1 < indexOf (store w ! results w) h2)"
    using iff inR inS by (simp add: indexOf_in R_def)
  have d: "(fst (highlightOffset (Some h1) w) < fst (highlightOffset (Some h2) w))
        = (indexOf (store w ! results w) h1 < indexOf (store w ! results w) h2)"
  proof -
    have o1: "fst (highlightOffset (Some h1) w) = indexOf S h1 + 1"
      and o2: "fst (highlightOffset (Some h2) w) = indexOf S h2 + 1"
      by (simp_all add: highlightOffset_Some S_def R_def f_def)
    show ?thesis by (simp only: o1 o2 add_less_cancel_right c)
  qed
  from a b c d show ?thesis by blast
qed

theorem highlightOffset_stable_witness:
  "0 \<in> set (store tied_scenario ! results tied_scenario)
   \<and> 2 \<in> set (store tied_scenario ! results tied_scenario)
   \<and> compareWith (getStart tied_scenario 0) (getStart tied_scenario 2) = same
   \<and> (\<exists>S. store (snd (highlightOffset (Some 0) tied_scenario)) = store tied_scenario @ [S]
      \<and> filter (\<lambda>r. compareWith (getStart tied_scenario r) (getStart tied_scenario 0) = same) S
        = filter (\<lambda>r. compareWith (getStart tied_scenario r) (getStart tied_scenario 0) = same)
            (store tied_scenario ! results tied_scenario)
      \<and> (indexOf S 0 < indexOf S 2)
        = (indexOf (store tied_scenario ! results tied_scenario) 0
            < indexOf (store tied_scenario ! results tied_scenario) 2)
      \<and> (fst (highlightOffset (Some 0) tied_scenario) < fst (highlightOffset (Some 2) tied_scenario))
        = (indexOf (store tied_scenario ! results tied_scenario) 0
            < indexOf (store tied_scenario ! results tied_scenario) 2))"
proof -
  have a: "0 \<in> set (store tied_scenario ! results tied_scenario)"
    and b: "2 \<in> set (store tied_scenario ! results tied_scenario)"
    and c: "compareWith (getStart tied_scenario 0) (getStart tied_scenario 2) = same"
    by (simp_all add: tied_scenario_def compareWith_def)
  from a b c highlightOffset_stable[OF a b c] show ?thesis by blast
qed

text \<open>
  C4: for two results of the result set, if the position of the first is before the
  position of the second, the highlight offset of the first is less than that of the
  second.
\<close>

theorem highlightOffset_monotone:
  fixes w :: "'p::linorder world"
  assumes "h1 \<in> set (store w ! results w)" and "h2 \<in> set (store w ! results w)"
    and "compareWith (getStart w h1) (getStart w h2) = before"
  shows "fst (highlightOffset (Some h1) w) < fst (highlightOffset (Some h2) w)"
proof -
  define S where "S = sort_key (getStart w) (store w ! results w)"
  define i1 where "i1 = length (takeWhile (\<lambda>y. y \<noteq> h1) S)"
  define i2 where "i2 = length (takeWhile (\<lambda>y. y \<noteq> h2) S)"
  from assms have in1: "h1 \<in> set S" and in2: "h2 \<in> set S" by (simp_all add: S_def)
  from assms(3) have lt: "getStart w h1 < getStart w h2"
    by (simp add: compareWith_def split: if_splits)
  have n1: "S ! i1 = h1" and n2: "S ! i2 = h2" and l1: "i1 < length S" and l2: "i2 < length S"
    using in1 in2 by (simp_all add: i1_def i2_def first_index_nth first_index_less)
  have so: "sorted (map (getStart w) S)" by (simp add: S_def)
  have "i1 < i2"
  proof (rule ccontr)
    assume "\<not> i1 < i2"
    then have "i2 \<le> i1" by simp
    with so l1 have "map (getStart w) S ! i2 \<le> map (getStart w) S ! i1"
      by (simp add: sorted_iff_nth_mono)
    with l1 l2 n1 n2 have "getStart w h2 \<le> getStart w h1" by simp
    with lt show False by simp
  qed
  then show ?thesis
    using in1 in2 by (simp add: highlightOffset_Some indexOf_in i1_def i2_def S_def)
qed

theorem highlightOffset_monotone_witness:
  "1 \<in> set (store scenario ! results scenario) \<and> 2 \<in> set (store scenario ! results scenario)
   \<and> compareWith (getStart scenario 1) (getStart scenario 2) = before
   \<and> fst (highlightOffset (Some 1) scenario) < fst (highlightOffset (Some 2) scenario)"
proof -
  have a: "1 \<in> set (store scenario ! results scenario)"
    and b: "2 \<in> set (store scenario ! results scenario)"
    and c: "compareWith (getStart scenario 1) (getStart scenario 2) = before"
    by (simp_all add: scenario_def compareWith_def)
  from a b c highlightOffset_monotone[OF a b c] show ?thesis by blast
qed

text \<open>
  C5: computing the highlight offset does not change the result set: the collection is
  the same array as before, every array that existed before the call is unchanged (the
  sorted array is a new one), and so the result set holds the same results in the same
  order.
\<close>

theorem highlightOffset_frame:
  fixes w :: "'p::linorder world"
  shows "results (snd (highlightOffset hr w)) = results w
    \<and> take (length (store w)) (store (snd (highlightOffset hr w))) = store w
    \<and> (results w < length (store w) \<longrightarrow>
         store (snd (highlightOffset hr w)) ! results (snd (highlightOffset hr w))
           = store w ! results w)"
proof (cases hr)
  case None
  then show ?thesis by (simp add: highlightOffset_def)
next
  case (Some h)
  then show ?thesis by (simp add: highlightOffset_Some nth_append)
qed

theorem highlightOffset_frame_witness:
  "results (snd (highlightOffset (Some 1) scenario)) = results scenario
    \<and> take (length (store scenario)) (store (snd (highlightOffset (Some 1) scenario)))
        = store scenario
    \<and> results scenario < length (store scenario)
    \<and> store (snd (highlightOffset (Some 1) scenario)) ! results (snd (highlightOffset (Some 1) scenario))
           = store scenario ! results scenario"
proof -
  have v: "results scenario < length (store scenario)"
    by (simp add: scenario_def)
  with highlightOffset_frame[of "Some 1" scenario] show ?thesis by blast
qed

text \<open>
  C6: with the results A at position 10, B at position 5 and C at position 20, inserted
  in this order, and B highlighted, the highlight offset is 1.
\<close>

theorem highlightOffset_scenario:
  "fst (highlightOffset (Some 1) scenario) = 1"
  by (simp add: highlightOffset_def scenario_def Array_from_def Array_sort_def
      Array_indexOf_def sortMapping_def compareWith_def)

text \<open>
  C8: for a highlighted result that is not in the result set, the search in the sorted
  copy finds nothing and the highlight offset is 0.
\<close>

theorem highlightOffset_stale:
  fixes w :: "'p::linorder world"
  assumes "h \<notin> set (store w ! results w)"
  shows "fst (highlightOffset (Some h) w) = 0"
  using assms by (simp add: highlightOffset_Some indexOf_notin)

theorem highlightOffset_stale_witness:
  "7 \<notin> set (store scenario ! results scenario) \<and> fst (highlightOffset (Some 7) scenario) = 0"
proof -
  have m: "7 \<notin> set (store scenario ! results scenario)"
    by (simp add: scenario_def)
  from m highlightOffset_stale[OF m] show ?thesis by (rule conjI)
qed

section \<open>Properties of the listeners\<close>

text \<open>
  C7: after the listener of the change event of the result set has run, the match count
  of the form view is the size of the result set; the result set is left as it is.
\<close>

theorem results_change_count:
  "matchCount (results_change w) = int (length (store w ! results w))
   \<and> store (results_change w) = store w \<and> results (results_change w) = results w"
  by (simp add: results_change_def)

text \<open>
  C9: when \<open>isDirty\<close> changes to true the plugin fires \<^verbatim>\<open>searchReseted\<close> once; when it
  changes to false the listener does nothing, so nothing is fired.
\<close>

theorem change_isDirty_fires:
  "fired (change_isDirty True w) = fired w @ [''searchReseted'']
   \<and> change_isDirty False w = w"
  by (simp add: change_isDirty_def fire_def)

section \<open>Properties of the default image style configuration\<close>

text \<open>
  C10: the default of \<^verbatim>\<open>image.styles\<close> is decided by which of ImageBlock and ImageInline
  are loaded: six arrangements and two groups with both, full and side with ImageBlock
  only, the three inline arrangements with ImageInline only, and undefined with neither.
\<close>

theorem defineDefaultConfiguration_cases:
  "(''ImageBlock'' \<in> P \<and> ''ImageInline'' \<in> P \<longrightarrow>
      defineDefaultConfiguration define P c = define ''image.styles''
        (Some \<lparr>arrangements = [''alignInline'', ''alignLeft'', ''alignRight'',
                  ''alignCenter'', ''alignBlockLeft'', ''alignBlockRight''],
               groups = Some [''inParagraph'', ''betweenParagraphs'']\<rparr>) c)
   \<and> (''ImageBlock'' \<in> P \<and> ''ImageInline'' \<notin> P \<longrightarrow>
      defineDefaultConfiguration define P c = define ''image.styles''
        (Some \<lparr>arrangements = [''full'', ''side''], groups = None\<rparr>) c)
   \<and> (''ImageBlock'' \<notin> P \<and> ''ImageInline'' \<in> P \<longrightarrow>
      defineDefaultConfiguration define P c = define ''image.styles''
        (Some \<lparr>arrangements = [''alignInline'', ''alignLeft'', ''alignRight''],
               groups = None\<rparr>) c)
   \<and> (''ImageBlock'' \<notin> P \<and> ''ImageInline'' \<notin> P \<longrightarrow>
      defineDefaultConfiguration define P c = define ''image.styles'' None c)"
  by (simp add: defineDefaultConfiguration_def)

theorem defineDefaultConfiguration_cases_witness:
  "(''ImageBlock'' \<in> {''ImageBlock'', ''ImageInline''}
      \<and> ''ImageInline'' \<in> {''ImageBlock'', ''ImageInline''}
      \<and> defineDefaultConfiguration (\<lambda>name value config. config @ [(name, value)])
            {''ImageBlock'', ''ImageInline''} []
          = [(''image.styles'',
             Some \<lparr>arrangements = [''alignInline'', ''alignLeft'', ''alignRight'',
                      ''alignCenter'', ''alignBlockLeft'', ''alignBlockRight''],
                   groups = Some [''inParagraph'', ''betweenParagraphs'']\<rparr>)])
   \<and> (''ImageBlock'' \<in> {''ImageBlock''} \<and> ''ImageInline'' \<notin> {''ImageBlock''}
      \<and> defineDefaultConfiguration (\<lambda>name value config. config @ [(name, value)])
            {''ImageBlock''} []
          = [(''image.styles'', Some \<lparr>arrangements = [''full'', ''side''], groups = None\<rparr>)])
   \<and> (''ImageBlock'' \<notin> {''ImageInline''} \<and> ''ImageInline'' \<in> {''ImageInline''}
      \<and> defineDefaultConfiguration (\<lambda>name value config. config @ [(name, value)])
            {''ImageInline''} []
          = [(''image.styles'',
             Some \<lparr>arrangements = [''alignInline'', ''alignLeft'', ''alignRight''],
                   groups = None\<rparr>)])
   \<and> (''ImageBlock'' \<notin> ({} :: string set) \<and> ''ImageInline'' \<notin> ({} :: string set)
      \<and> defineDefaultConfiguration (\<lambda>name value config. config @ [(name, value)])
            {} []
          = [(''image.styles'', None)])"
  using
    defineDefaultConfiguration_cases
      [of "{''ImageBlock'', ''ImageInline''}" "\<lambda>name value config. config @ [(name, value)]" "[]"]
    defineDefaultConfiguration_cases
      [of "{''ImageBlock''}" "\<lambda>name value config. config @ [(name, value)]" "[]"]
    defineDefaultConfiguration_cases
      [of "{''ImageInline''}" "\<lambda>name value config. config @ [(name, value)]" "[]"]
    defineDefaultConfiguration_cases
      [of "{}" "\<lambda>name value config. config @ [(name, value)]" "[]"]
  by simp

end
